theory Spec2Isabelle
  imports Complex_Main "HOL-Library.AList"
begin

section \<open>JavaScript values\<close>

text \<open>
  The library works on untyped JavaScript values. A number is a double: not-a-number, an
  infinity or a finite rational (the two zeros are identified: both are falsy, and no
  function below looks at the sign of zero). A string is a list of 8-bit code units. An
  array is the list of its elements. An object is the list of its enumerable own
  properties in enumeration order. A function value is \<open>JFun\<close>; it has no enumerable own
  properties. Inherited properties, symbols and cyclic structures are not modelled.
\<close>

datatype jsnum = NaN | PosInfinity | NegInfinity | Finite rat

datatype jsval =
    JUndefined
  | JNull
  | JBool bool
  | JNum jsnum
  | JStr string
  | JArr "jsval list"
  | JObj "(string \<times> jsval) list"
  | JFun

text \<open>What a raised exception is: the engine's TypeError, or the Error that the Version
  constructor throws.\<close>

datatype error = TypeError | InvalidVersion

text \<open>\<open>!v\<close> is true exactly on the falsy values: undefined, null, false, 0, NaN and ''.\<close>

fun truthy :: "jsval \<Rightarrow> bool" where
  "truthy JUndefined = False"
| "truthy JNull = False"
| "truthy (JBool b) = b"
| "truthy (JNum n) = (n \<noteq> NaN \<and> n \<noteq> Finite 0)"
| "truthy (JStr s) = (s \<noteq> [])"
| "truthy (JArr xs) = True"
| "truthy (JObj ps) = True"
| "truthy JFun = True"

text \<open>\<open>a || b\<close>\<close>

definition js_or :: "jsval \<Rightarrow> jsval \<Rightarrow> jsval" where
  "js_or a b = (if truthy a then a else b)"

text \<open>\<open>xs[i]\<close> on an array: undefined past the end.\<close>

definition js_index :: "jsval list \<Rightarrow> nat \<Rightarrow> jsval" where
  "js_index xs i = (if i < length xs then xs ! i else JUndefined)"

text \<open>lodash's type tests.\<close>

fun isString :: "jsval \<Rightarrow> bool" where
  "isString (JStr s) = True"
| "isString v = False"

fun isNumber :: "jsval \<Rightarrow> bool" where
  "isNumber (JNum n) = True"
| "isNumber v = False"

fun isBoolean :: "jsval \<Rightarrow> bool" where
  "isBoolean (JBool b) = True"
| "isBoolean v = False"

fun isArray :: "jsval \<Rightarrow> bool" where
  "isArray (JArr xs) = True"
| "isArray v = False"

fun isFunction :: "jsval \<Rightarrow> bool" where
  "isFunction JFun = True"
| "isFunction v = False"

text \<open>\<open>_.isObject\<close> holds of every value that is not a primitive: objects, arrays and
  functions.\<close>

fun isObject :: "jsval \<Rightarrow> bool" where
  "isObject (JObj ps) = True"
| "isObject (JArr xs) = True"
| "isObject JFun = True"
| "isObject v = False"

text \<open>
  lodash's \<open>_.each\<close> walks an object by its own properties, unless the object has a
  numeric \<open>length\<close> property: then lodash may walk it like an array, by the indices below
  that length (the sources do not pin the lodash version, and the versions differ in which
  numbers count as a length). lodash 3 also walks a function by its number of parameters.
  The model has the walk by properties only. It is the code on the plain values: those in
  which no mapping has a numeric \<open>length\<close> property and no sequence has a function among
  its elements (a function as the value of a property is skipped before any walk). Every
  statement below about all mappings or all sequences is about the plain ones.
\<close>

primrec plain :: "jsval \<Rightarrow> bool" where
  "plain JUndefined = True"
| "plain JNull = True"
| "plain (JBool b) = True"
| "plain (JNum n) = True"
| "plain (JStr s) = True"
| "plain (JArr xs) = (JFun \<notin> set xs \<and> list_all id (map plain xs))"
| "plain (JObj ps) =
     (list_all (\<lambda>p. \<not> (fst p = ''length'' \<and> isNumber (snd p))) ps \<and>
      list_all snd (map (map_prod id plain) ps))"
| "plain JFun = True"

section \<open>Regular expressions\<close>

text \<open>
  A pattern is run the way a backtracking engine runs it: a matcher maps the input that
  is left to the list of inputs that can be left after it, the engine's first choice
  first. Greedy quantifiers list the longest match first.
\<close>

type_synonym matcher = "string \<Rightarrow> string list"

definition is_digit :: "char \<Rightarrow> bool" where
  "is_digit c = (c \<in> set ''0123456789'')"

text \<open>\<open>\s\<close> on 8-bit code units: tab, line feed, vertical tab, form feed, carriage return,
  space and the no-break space.\<close>

definition is_space :: "char \<Rightarrow> bool" where
  "is_space c = (c \<in> set [CHR 0x09, CHR 0x0A, CHR 0x0B, CHR 0x0C, CHR 0x0D, CHR 0x20, CHR 0xA0])"

definition is_dot :: "char \<Rightarrow> bool" where
  "is_dot c = (c = CHR ''.'')"

fun re_star :: "(char \<Rightarrow> bool) \<Rightarrow> matcher" where
  "re_star p [] = [[]]"
| "re_star p (c # cs) = (if p c then re_star p cs @ [c # cs] else [c # cs])"

definition re_plus :: "(char \<Rightarrow> bool) \<Rightarrow> matcher" where
  "re_plus p s = (case s of [] \<Rightarrow> [] | c # cs \<Rightarrow> if p c then re_star p cs else [])"

definition re_char :: "char \<Rightarrow> matcher" where
  "re_char a s = (case s of [] \<Rightarrow> [] | c # cs \<Rightarrow> if c = a then [cs] else [])"

definition re_then :: "matcher \<Rightarrow> matcher \<Rightarrow> matcher" where
  "re_then m n s = concat (map n (m s))"

definition re_opt :: "matcher \<Rightarrow> matcher" where
  "re_opt m s = m s @ [s]"

text \<open>The text consumed between the input \<open>s\<close> and what is left of it, \<open>r\<close>.\<close>

definition consumed :: "string \<Rightarrow> string \<Rightarrow> string" where
  "consumed s r = take (length s - length r) s"

section \<open>Version\<close>

text \<open>\<open>/^((?:\d+\.*){1,3})\s*\((\d+)\)\s*$/i\<close>: the result of \<open>String.prototype.match\<close>,
  the array of the whole match and the two captured groups, or nothing.\<close>

definition version_piece :: matcher where
  "version_piece = re_then (re_plus is_digit) (re_star is_dot)"

definition version_group :: matcher where
  "version_group = re_then version_piece (re_opt (re_then version_piece (re_opt version_piece)))"

text \<open>The ways the engine can match the whole input, in its order of preference: what is
  left behind the first group, and what is left before and behind the second.\<close>

definition version_matches :: "string \<Rightarrow> (string \<times> string \<times> string) list" where
  "version_matches s =
     [(r1, r3, r4). r1 \<leftarrow> version_group s, r2 \<leftarrow> re_star is_space r1,
                     r3 \<leftarrow> re_char (CHR ''('') r2, r4 \<leftarrow> re_plus is_digit r3,
                     r5 \<leftarrow> re_char (CHR '')'') r4, r6 \<leftarrow> re_star is_space r5, r6 = []]"

definition versionPattern :: "string \<Rightarrow> jsval list option" where
  "versionPattern s =
     (case version_matches s of
        [] \<Rightarrow> None
      | (r1, r3, r4) # _ \<Rightarrow> Some [JStr s, JStr (consumed s r1), JStr (consumed r3 r4)])"

record Version =
  ver :: string

record parsed =
  version :: Version
  build :: jsval

text \<open>\<open>Version(ver)\<close>: throws unless \<open>ver\<close> is a string.\<close>

fun Version_new :: "jsval \<Rightarrow> error + Version" where
  "Version_new (JStr s) = Inr \<lparr>ver = s\<rparr>"
| "Version_new v = Inl InvalidVersion"

text \<open>The comparisons hand both versions to \<open>compareVersion\<close>, the npm package
  compare-version, which is not part of this repository: it is the parameter
  \<open>compareVersion\<close>, a three-way comparison with an integer result.\<close>

definition Version_lt :: "(string \<Rightarrow> 'a \<Rightarrow> int) \<Rightarrow> Version \<Rightarrow> 'a \<Rightarrow> bool" where
  "Version_lt compareVersion this ver2 = (compareVersion (ver this) ver2 < 0)"

definition Version_lte :: "(string \<Rightarrow> 'a \<Rightarrow> int) \<Rightarrow> Version \<Rightarrow> 'a \<Rightarrow> bool" where
  "Version_lte compareVersion this ver2 = (compareVersion (ver this) ver2 \<le> 0)"

definition Version_gt :: "(string \<Rightarrow> 'a \<Rightarrow> int) \<Rightarrow> Version \<Rightarrow> 'a \<Rightarrow> bool" where
  "Version_gt compareVersion this ver2 = (compareVersion (ver this) ver2 > 0)"

definition Version_gte :: "(string \<Rightarrow> 'a \<Rightarrow> int) \<Rightarrow> Version \<Rightarrow> 'a \<Rightarrow> bool" where
  "Version_gte compareVersion this ver2 = (compareVersion (ver this) ver2 \<ge> 0)"

definition Version_eq :: "(string \<Rightarrow> 'a \<Rightarrow> int) \<Rightarrow> Version \<Rightarrow> 'a \<Rightarrow> bool" where
  "Version_eq compareVersion this ver2 = (compareVersion (ver this) ver2 = 0)"

definition Version_toString :: "Version \<Rightarrow> string" where
  "Version_toString this = ver this"

text \<open>\<open>Version.parse\<close>\<close>

definition parse :: "jsval \<Rightarrow> error + parsed" where
  "parse versionString =
     (let matches = (case versionString of
                       JStr s \<Rightarrow> (case versionPattern s of Some m \<Rightarrow> m | None \<Rightarrow> [])
                     | _ \<Rightarrow> [])
      in case Version_new (js_or (js_index matches 1) (JStr [])) of
           Inl e \<Rightarrow> Inl e
         | Inr v \<Rightarrow> Inr \<lparr>version = v, build = js_or (js_index matches 2) (JNum (Finite 0))\<rparr>)"

section \<open>snake2camel\<close>

definition isPrimitive :: "jsval \<Rightarrow> bool" where
  "isPrimitive val = (isNumber val \<or> isBoolean val \<or> isString val \<or> val = JNull \<or> val = JUndefined)"

definition is_lower :: "char \<Rightarrow> bool" where
  "is_lower c = (c \<in> set ''abcdefghijklmnopqrstuvwxyz'')"

definition re_class :: "(char \<Rightarrow> bool) \<Rightarrow> matcher" where
  "re_class p s = (case s of [] \<Rightarrow> [] | c # cs \<Rightarrow> if p c then [cs] else [])"

text \<open>\<open>toUpperCase\<close>, on the letters a to z: the only text the code hands it.\<close>

definition upper_char :: "char \<Rightarrow> char" where
  "upper_char c = (if is_lower c then char_of (of_char c - (32::nat)) else c)"

definition toUpperCase :: "string \<Rightarrow> string" where
  "toUpperCase s = map upper_char s"

text \<open>\<open>/_([a-z])/\<close> tried where the input starts.\<close>

definition snake_pattern :: matcher where
  "snake_pattern = re_then (re_char (CHR ''_'')) (re_class is_lower)"

lemma snake_pattern_shorter: "r \<in> set (snake_pattern s) \<Longrightarrow> length r < length s"
  by (auto simp: snake_pattern_def re_then_def re_char_def re_class_def
           split: list.splits if_splits)

text \<open>\<open>snake.replace(/_([a-z])/g, function (g) { return g[1].toUpperCase(); })\<close>: the
  pattern is tried at every position from the left; a match \<open>g\<close> is replaced by the upper
  case of its second character and the search goes on behind the match, an unmatched
  character is copied.\<close>

function replace_snake :: "string \<Rightarrow> string" where
  "replace_snake s =
     (case snake_pattern s of
        r # _ \<Rightarrow> toUpperCase (take 1 (drop 1 (consumed s r))) @ replace_snake r
      | [] \<Rightarrow> (case s of [] \<Rightarrow> [] | c # cs \<Rightarrow> c # replace_snake cs))"
  by pat_completeness auto
termination
  by (relation "measure length") (auto intro: snake_pattern_shorter)

declare replace_snake.simps [simp del]

text \<open>\<open>_snake2camel\<close>: a falsy value and a number are returned as they are; a string
  has its snake patterns replaced; any other value has no \<open>replace\<close> method, and calling
  it raises a TypeError.\<close>

definition inner_snake2camel :: "jsval \<Rightarrow> error + jsval" where
  "inner_snake2camel snake =
     (if \<not> truthy snake \<or> isNumber snake then Inr snake
      else case snake of
             JStr s \<Rightarrow> Inr (JStr (replace_snake s))
           | _ \<Rightarrow> Inl TypeError)"

text \<open>The string that \<open>_snake2camel\<close> returns on a string, which is how the keys of a
  mapping meet it: the empty string is falsy and comes back as it is.\<close>

definition snake2camel_string :: "string \<Rightarrow> string" where
  "snake2camel_string snake = (if snake = [] then snake else replace_snake snake)"

lemma inner_snake2camel_simps [simp]:
  "inner_snake2camel (JStr s) = Inr (JStr (snake2camel_string s))"
  "inner_snake2camel (JNum n) = Inr (JNum n)"
  "inner_snake2camel (JBool b) = (if b then Inl TypeError else Inr (JBool b))"
  "inner_snake2camel JNull = Inr JNull"
  "inner_snake2camel JUndefined = Inr JUndefined"
  "inner_snake2camel (JArr xs) = Inl TypeError"
  "inner_snake2camel (JObj ps) = Inl TypeError"
  "inner_snake2camel JFun = Inl TypeError"
  by (simp_all add: inner_snake2camel_def snake2camel_string_def)

text \<open>\<open>_snakeArr2camel\<close> is the loop of \<open>_.map\<close> over the elements, \<open>_snakeObj2camel\<close> the
  loop of \<open>_.each\<close> over the properties of a plain object, with the object \<open>values\<close> built
  so far; an assignment \<open>values[k] = v\<close> replaces the value of a key that is there and
  appends a new key. Both are entered with truthy arguments only. A value that is neither
  a primitive nor an array goes to \<open>_snakeObj2camel\<close>; for a function that \<open>_.each\<close> finds
  nothing to walk in (lodash 4; a function is not plain as an element of a sequence) that
  is the empty object.\<close>

function inner_snakeArr2camel :: "jsval list \<Rightarrow> error + jsval list"
  and inner_snakeObj2camel ::
    "(string \<times> jsval) list \<Rightarrow> (string \<times> jsval) list \<Rightarrow> error + (string \<times> jsval) list"
where
  "inner_snakeArr2camel [] = Inr []"
| "inner_snakeArr2camel (obj # rest) =
     (case (if isPrimitive obj then inner_snake2camel obj
            else case obj of
                   JArr xs \<Rightarrow> map_sum id JArr (inner_snakeArr2camel xs)
                 | JObj ps \<Rightarrow> map_sum id JObj (inner_snakeObj2camel ps [])
                 | _ \<Rightarrow> Inr (JObj [])) of
        Inl e \<Rightarrow> Inl e
      | Inr y \<Rightarrow> map_sum id ((#) y) (inner_snakeArr2camel rest))"
| "inner_snakeObj2camel [] values = Inr values"
| "inner_snakeObj2camel ((key, val) # rest) values =
     (if isFunction val then inner_snakeObj2camel rest values
      else case (if isPrimitive val then Inr val
                 else case val of
                        JArr xs \<Rightarrow> map_sum id JArr (inner_snakeArr2camel xs)
                      | JObj ps \<Rightarrow> map_sum id JObj (inner_snakeObj2camel ps [])
                      | _ \<Rightarrow> Inr (JObj [])) of
             Inl e \<Rightarrow> Inl e
           | Inr v \<Rightarrow> inner_snakeObj2camel rest (AList.update (snake2camel_string key) v values))"
  by pat_completeness auto
termination
  by (relation "measure (\<lambda>x. case x of Inl xs \<Rightarrow> size (JArr xs)
                                       | Inr (ps, values) \<Rightarrow> size (JObj ps))") auto

text \<open>\<open>snake2camel\<close>, the exported function.\<close>

definition snake2camel :: "jsval \<Rightarrow> error + jsval" where
  "snake2camel snake =
     (if \<not> truthy snake then Inr snake
      else if isString snake then inner_snake2camel snake
      else if isArray snake then
        (case snake of JArr xs \<Rightarrow> map_sum id JArr (inner_snakeArr2camel xs) | _ \<Rightarrow> Inr JNull)
      else if isObject snake then
        (case snake of JObj ps \<Rightarrow> map_sum id JObj (inner_snakeObj2camel ps []) | _ \<Rightarrow> Inr (JObj []))
      else Inr JNull)"

section \<open>extractIPv4\<close>

text \<open>\<open>/(\d+(?:\.(?:\d+)){3})/\<close> tried where the input starts, and searched for from the
  left: the text of the first match.\<close>

definition dot_digits :: matcher where
  "dot_digits = re_then (re_char (CHR ''.'')) (re_plus is_digit)"

definition ipv4_pattern :: matcher where
  "ipv4_pattern = re_then (re_plus is_digit) (re_then dot_digits (re_then dot_digits dot_digits))"

fun ipv4_search :: "string \<Rightarrow> string option" where
  "ipv4_search [] = (case ipv4_pattern [] of r # _ \<Rightarrow> Some (consumed [] r) | [] \<Rightarrow> None)"
| "ipv4_search (c # cs) =
     (case ipv4_pattern (c # cs) of
        r # _ \<Rightarrow> Some (consumed (c # cs) r)
      | [] \<Rightarrow> ipv4_search cs)"

text \<open>\<open>ip.match(...)\<close> is null when nothing matches, and \<open>matches[1]\<close> then raises a
  TypeError; so does \<open>ip.match\<close> on a truthy value that is not a string (an object that
  brings a \<open>match\<close> method of its own is outside the model).\<close>

definition extractIPv4 :: "jsval \<Rightarrow> error + jsval" where
  "extractIPv4 ip =
     (if \<not> truthy ip then Inr ip
      else case ip of
             JStr s \<Rightarrow>
               (case ipv4_search s of
                  None \<Rightarrow> Inl TypeError
                | Some m \<Rightarrow> if \<not> truthy (JStr m) then Inr ip else Inr (JStr m))
           | _ \<Rightarrow> Inl TypeError)"

section \<open>isNumericMap\<close>

text \<open>The decimal numeral of an index, and the property names a \<open>for (key in map)\<close> loop
  visits: the keys of an object, the indices of a string, none for any other value that
  is not an array.\<close>

fun decimal :: "nat \<Rightarrow> string" where
  "decimal n = (if n < 10 then [char_of (48 + n)] else decimal (n div 10) @ [char_of (48 + n mod 10)])"

declare decimal.simps [simp del]

fun for_in_keys :: "jsval \<Rightarrow> string list" where
  "for_in_keys (JObj ps) = map fst ps"
| "for_in_keys (JStr s) = map decimal [0..<length s]"
| "for_in_keys v = []"

text \<open>The loop over the keys, with the variables \<open>counter\<close> and \<open>isNumericMap\<close>. The global
  \<open>isNaN\<close> on a property name (the engine's conversion of a string to a number) is the
  parameter \<open>isNaN\<close>.\<close>

fun isNumericMap_loop :: "(string \<Rightarrow> bool) \<Rightarrow> bool \<Rightarrow> string list \<Rightarrow> nat \<Rightarrow> bool \<Rightarrow> bool" where
  "isNumericMap_loop isNaN fastCheck [] counter isNumericMap = isNumericMap"
| "isNumericMap_loop isNaN fastCheck (key # keys) counter isNumericMap =
     (if fastCheck then
        (if counter \<noteq> 0 then isNumericMap
         else if \<not> isNaN key then True
         else isNumericMap_loop isNaN fastCheck keys (counter + 1) isNumericMap)
      else
        (if isNaN key then isNumericMap
         else isNumericMap_loop isNaN fastCheck keys counter isNumericMap))"

definition isNumericMap :: "(string \<Rightarrow> bool) \<Rightarrow> jsval \<Rightarrow> jsval \<Rightarrow> bool" where
  "isNumericMap isNaN mp fastCheck =
     (let fast = (if fastCheck = JUndefined then True else truthy fastCheck)
      in if \<not> isArray mp then isNumericMap_loop isNaN fast (for_in_keys mp) 0 False
         else False)"

section \<open>The words of the specification\<close>

text \<open>Key-style conversion as the specification words it: an underscore right before a
  lower-case ASCII letter is deleted and the letter is put in upper case; every other
  character stays.\<close>

fun key_style :: "string \<Rightarrow> string" where
  "key_style [] = []"
| "key_style [c] = [c]"
| "key_style (u # l # rest) =
     (if u = CHR ''_'' \<and> is_lower l then upper_char l # key_style rest
      else u # key_style (l # rest))"

text \<open>A digit group, a string of one to three digit groups separated by dots, and a
  string that has four digit groups separated by dots somewhere inside.\<close>

definition digit_group :: "string \<Rightarrow> bool" where
  "digit_group d = (d \<noteq> [] \<and> list_all is_digit d)"

definition dotted_version :: "string \<Rightarrow> bool" where
  "dotted_version s =
     (digit_group s \<or>
      (\<exists>a b. digit_group a \<and> digit_group b \<and> s = a @ ''.'' @ b) \<or>
      (\<exists>a b c. digit_group a \<and> digit_group b \<and> digit_group c \<and>
         s = a @ ''.'' @ b @ ''.'' @ c))"

text \<open>The entries of a mapping that are data: those whose value is not callable.\<close>

definition data_entries :: "(string \<times> jsval) list \<Rightarrow> (string \<times> jsval) list" where
  "data_entries ps = filter (\<lambda>p. \<not> isFunction (snd p)) ps"

text \<open>The value of the last data entry whose converted key is \<open>k\<close>, if there is one.\<close>

definition last_under :: "(string \<times> jsval) list \<Rightarrow> string \<Rightarrow> jsval option" where
  "last_under ps = map_of (rev (map (\<lambda>p. (key_style (fst p), snd p)) (data_entries ps)))"

definition has_dotted_quad :: "string \<Rightarrow> bool" where
  "has_dotted_quad s =
     (\<exists>pre a b c d post. digit_group a \<and> digit_group b \<and> digit_group c \<and> digit_group d \<and>
        s = pre @ a @ ''.'' @ b @ ''.'' @ c @ ''.'' @ d @ post)"

text \<open>No sequence inside the value has \<open>true\<close> among its elements.\<close>

primrec true_free :: "jsval \<Rightarrow> bool" where
  "true_free JUndefined = True"
| "true_free JNull = True"
| "true_free (JBool b) = True"
| "true_free (JNum n) = True"
| "true_free (JStr s) = True"
| "true_free (JArr xs) = (JBool True \<notin> set xs \<and> list_all id (map true_free xs))"
| "true_free (JObj ps) = list_all snd (map (map_prod id true_free) ps)"
| "true_free JFun = True"

section \<open>The tests of the repository\<close>

text \<open>The model gives what the test suite expects. Objects are written with their
  properties in enumeration order (keys that are array indices first, in ascending
  order); \<open>isNaN\<close> is taken to hold of exactly the keys that are not numerals, which is
  what the engine answers on the keys of these tests.\<close>

lemma test_snake2camel_string:
  "snake2camel (JStr ''my_key_name'') = Inr (JStr ''myKeyName'')"
  by code_simp

lemma test_snake2camel_object:
  "snake2camel (JObj [(''key_my'', JFun), (''my_key_name2'', JNum (Finite 234)),
                      (''my_key_name3'', JStr ''asdf'')]) =
   Inr (JObj [(''myKeyName2'', JNum (Finite 234)), (''myKeyName3'', JStr ''asdf'')])"
  by code_simp

lemma test_snake2camel_nested_object:
  "snake2camel (JObj [(''key_my'', JFun), (''my_key_name2'', JNum (Finite 234)),
                      (''my_key_name3'', JStr ''asdf''),
                      (''this_is_my_key'', JObj [(''xyz_a'', JNum (Finite 2)), (''abc_d'', JStr ''asdf'')])]) =
   Inr (JObj [(''myKeyName2'', JNum (Finite 234)), (''myKeyName3'', JStr ''asdf''),
              (''thisIsMyKey'', JObj [(''xyzA'', JNum (Finite 2)), (''abcD'', JStr ''asdf'')])])"
  by code_simp

lemma test_snake2camel_nested_array:
  "snake2camel (JObj [(''key_my'', JFun), (''my_key_name2'', JNum (Finite 234)),
                      (''my_key_name3'', JStr ''asdf''),
                      (''this_is_my_key'',
                         JArr [JObj [(''xyz_a'', JNum (Finite 2)), (''abc_d'', JStr ''asdf'')],
                               JObj [(''xyz_a'', JNum (Finite 2)), (''abc_d'', JStr ''asdf'')]])]) =
   Inr (JObj [(''myKeyName2'', JNum (Finite 234)), (''myKeyName3'', JStr ''asdf''),
              (''thisIsMyKey'',
                 JArr [JObj [(''xyzA'', JNum (Finite 2)), (''abcD'', JStr ''asdf'')],
                       JObj [(''xyzA'', JNum (Finite 2)), (''abcD'', JStr ''asdf'')]])])"
  by code_simp

lemma test_snake2camel_array:
  "snake2camel (JArr [JObj [(''key_my'', JFun), (''my_key_name2'', JNum (Finite 234)),
                            (''my_key_name3'', JStr ''asdf'')],
                      JObj [(''key_my'', JFun), (''my_key_name2'', JNum (Finite 234)),
                            (''my_key_name3'', JStr ''asdf'')]]) =
   Inr (JArr [JObj [(''myKeyName2'', JNum (Finite 234)), (''myKeyName3'', JStr ''asdf'')],
              JObj [(''myKeyName2'', JNum (Finite 234)), (''myKeyName3'', JStr ''asdf'')]])"
  by code_simp

lemma test_snake2camel_primitives:
  "snake2camel (JArr [JStr ''abcd'', JStr ''efgh'']) = Inr (JArr [JStr ''abcd'', JStr ''efgh''])"
  by code_simp

lemma test_snake2camel_empty:
  "snake2camel JUndefined = Inr JUndefined"
  "snake2camel JNull = Inr JNull"
  "snake2camel (JBool False) = Inr (JBool False)"
  "snake2camel (JStr []) = Inr (JStr [])"
  "snake2camel (JArr [JNull]) = Inr (JArr [JNull])"
  "snake2camel (JArr [JUndefined]) = Inr (JArr [JUndefined])"
  "snake2camel (JObj [(''my_key'', JArr [JUndefined])]) = Inr (JObj [(''myKey'', JArr [JUndefined])])"
  by code_simp+

lemma test_isPrimitive:
  "isPrimitive (JNum (Finite 1))" "isPrimitive (JStr [])" "isPrimitive (JBool True)"
  "isPrimitive JNull" "isPrimitive JUndefined" "\<not> isPrimitive (JObj [])"
  by (simp_all add: isPrimitive_def)

lemma test_extractIPv4:
  "extractIPv4 (JStr ''the ip is at the end 1.2.3.4'') = Inr (JStr ''1.2.3.4'')"
  "extractIPv4 (JStr ''1.2.3.4 at the beginning'') = Inr (JStr ''1.2.3.4'')"
  "extractIPv4 (JStr ''in the middle 1.2.3.4 with 2.2.3.5 ip addresses'') = Inr (JStr ''1.2.3.4'')"
  by code_simp+

lemma test_isNumericMap:
  "isNumericMap (\<lambda>key. \<not> list_all is_digit key)
     (JObj [(''1'', JStr ''abc''), (''2'', JStr ''def''), (''3'', JStr ''ghi'')]) JUndefined"
  "isNumericMap (\<lambda>key. \<not> list_all is_digit key)
     (JObj [(''1'', JStr ''1''), (''3'', JNum (Finite 3)), (''abc'', JNum (Finite 2))]) (JBool True)"
  "isNumericMap (\<lambda>key. \<not> list_all is_digit key)
     (JObj [(''2'', JNum (Finite 2)), (''3'', JStr ''3''), (''abc'', JNum (Finite 1))]) (JBool True)"
  "\<not> isNumericMap (\<lambda>key. \<not> list_all is_digit key)
     (JObj [(''2'', JNum (Finite 2)), (''3'', JStr ''3''), (''abc'', JNum (Finite 1))]) (JBool False)"
  by code_simp+

section \<open>Version: comparisons\<close>

text \<open>
  C6. For all version strings \<open>a\<close> and \<open>b\<close> (and whatever \<open>compareVersion\<close> answers),
  \<open>Version(a)\<close> is constructed, exactly one of \<open>lt(b)\<close>, \<open>eq(b)\<close>, \<open>gt(b)\<close> holds,
  \<open>gte(b)\<close> is \<open>gt(b) || eq(b)\<close> and \<open>lte(b)\<close> is \<open>lt(b) || eq(b)\<close>.
\<close>

theorem Version_comparisons:
  "\<exists>v. Version_new (JStr a) = Inr v \<and>
     (Version_lt compareVersion v b \<and> \<not> Version_eq compareVersion v b \<and> \<not> Version_gt compareVersion v b
      \<or> Version_eq compareVersion v b \<and> \<not> Version_lt compareVersion v b \<and> \<not> Version_gt compareVersion v b
      \<or> Version_gt compareVersion v b \<and> \<not> Version_lt compareVersion v b \<and> \<not> Version_eq compareVersion v b) \<and>
     Version_gte compareVersion v b = (Version_gt compareVersion v b \<or> Version_eq compareVersion v b) \<and>
     Version_lte compareVersion v b = (Version_lt compareVersion v b \<or> Version_eq compareVersion v b)"
  unfolding Version_lt_def Version_lte_def Version_gt_def Version_gte_def Version_eq_def
  by (simp add: less_le) arith

section \<open>Version: parse\<close>

subsection \<open>What a matcher leaves is the end of its input\<close>

lemma re_star_split: "r \<in> set (re_star p s) \<Longrightarrow> \<exists>d. s = d @ r \<and> list_all p d"
proof (induction s)
  case Nil
  then show ?case by simp
next
  case (Cons c cs)
  show ?case
  proof (cases "r = c # cs")
    case True
    then show ?thesis by simp
  next
    case False
    with Cons.prems have "p c" and "r \<in> set (re_star p cs)"
      by (auto split: if_splits)
    with Cons.IH obtain d where "cs = d @ r" "list_all p d" by blast
    with \<open>p c\<close> have "c # cs = (c # d) @ r \<and> list_all p (c # d)" by simp
    then show ?thesis by blast
  qed
qed

lemma re_plus_split: "r \<in> set (re_plus p s) \<Longrightarrow> \<exists>d. s = d @ r \<and> d \<noteq> [] \<and> list_all p d"
proof (cases s)
  case Nil
  assume "r \<in> set (re_plus p s)"
  with Nil show ?thesis by (simp add: re_plus_def)
next
  case (Cons c cs)
  assume "r \<in> set (re_plus p s)"
  with Cons have "p c" and "r \<in> set (re_star p cs)"
    by (auto simp: re_plus_def split: if_splits)
  from re_star_split [OF this(2)] obtain d where "cs = d @ r" "list_all p d" by blast
  with \<open>p c\<close> Cons have "s = (c # d) @ r \<and> c # d \<noteq> [] \<and> list_all p (c # d)" by simp
  then show ?thesis by blast
qed

lemma re_char_split: "r \<in> set (re_char a s) \<Longrightarrow> s = a # r"
  by (auto simp: re_char_def split: list.splits if_splits)

lemma re_then_iff: "r \<in> set (re_then m n s) \<longleftrightarrow> (\<exists>t\<in>set (m s). r \<in> set (n t))"
  by (auto simp: re_then_def)

lemma re_star_set: "r \<in> set (re_star p s) \<Longrightarrow> set r \<subseteq> set s"
  using re_star_split [of r p s] by auto

lemma re_plus_set: "r \<in> set (re_plus p s) \<Longrightarrow> set r \<subseteq> set s"
  using re_plus_split [of r p s] by auto

lemma version_piece_set: "r \<in> set (version_piece s) \<Longrightarrow> set r \<subseteq> set s"
  by (auto simp: version_piece_def re_then_iff dest!: re_star_set re_plus_set)

lemma version_group_set: "r \<in> set (version_group s) \<Longrightarrow> set r \<subseteq> set s"
  by (auto simp: version_group_def re_then_iff re_opt_def dest!: version_piece_set)

subsection \<open>A match needs an opening parenthesis\<close>

lemma versionPattern_paren: "versionPattern s = Some m \<Longrightarrow> CHR ''('' \<in> set s"
proof -
  assume "versionPattern s = Some m"
  then obtain x xs where "version_matches s = x # xs"
    by (auto simp: versionPattern_def split: list.splits)
  then have "x \<in> set (version_matches s)" by simp
  then obtain r1 r2 r3 where "r1 \<in> set (version_group s)" "r2 \<in> set (re_star is_space r1)"
    "r3 \<in> set (re_char (CHR ''('') r2)"
    by (auto simp: version_matches_def)
  with version_group_set [of r1 s] re_star_set [of r2 is_space r1]
    re_char_split [of r3 "CHR ''(''" r2]
  show ?thesis by auto
qed

lemma digit_group_no_paren: "digit_group d \<Longrightarrow> CHR ''('' \<notin> set d"
proof -
  assume "digit_group d"
  then have "\<forall>c\<in>set d. is_digit c" by (simp add: digit_group_def list_all_iff)
  moreover have "\<not> is_digit (CHR ''('')" by (simp add: is_digit_def)
  ultimately show ?thesis by blast
qed

lemma dotted_version_no_paren: "dotted_version s \<Longrightarrow> CHR ''('' \<notin> set s"
  unfolding dotted_version_def using digit_group_no_paren by auto

lemma parse_no_match:
  "versionPattern s = None \<Longrightarrow>
   parse (JStr s) = Inr \<lparr>version = \<lparr>ver = []\<rparr>, build = JNum (Finite 0)\<rparr>"
  by (simp add: parse_def js_or_def js_index_def)

lemma parse_non_string:
  "\<not> isString v \<Longrightarrow> parse v = Inr \<lparr>version = \<lparr>ver = []\<rparr>, build = JNum (Finite 0)\<rparr>"
  by (cases v) (simp_all add: parse_def js_or_def js_index_def)

lemma parse_with_build:
  "parse (JStr ''1.2.3 (45)'') = Inr \<lparr>version = \<lparr>ver = ''1.2.3''\<rparr>, build = JStr ''45''\<rparr>"
  by code_simp

lemma dotted_version_example: "dotted_version ''1.2.3''"
proof -
  have "digit_group ''1'' \<and> digit_group ''2'' \<and> digit_group ''3'' \<and>
        ''1.2.3'' = ''1'' @ ''.'' @ ''2'' @ ''.'' @ ''3''"
    by (simp add: digit_group_def is_digit_def)
  then show ?thesis unfolding dotted_version_def by blast
qed

text \<open>
  C1, as the code has it. The pattern asks for the parenthesised build number, so a string
  of one to three digit groups separated by dots, with no build number behind it, does
  not match: \<open>Version.parse\<close> returns the pair of the Version of the empty string and the
  build 0.
\<close>

theorem parse_without_build:
  "dotted_version s \<Longrightarrow>
   parse (JStr s) = Inr \<lparr>version = \<lparr>ver = []\<rparr>, build = JNum (Finite 0)\<rparr>"
  using versionPattern_paren [of s] dotted_version_no_paren [of s] parse_no_match [of s]
  by (cases "versionPattern s") auto

theorem parse_without_build_witness:
  "dotted_version ''1.2.3'' \<and>
   parse (JStr ''1.2.3'') = Inr \<lparr>version = \<lparr>ver = []\<rparr>, build = JNum (Finite 0)\<rparr>"
  using parse_without_build [OF dotted_version_example] dotted_version_example by simp

text \<open>C1 as it is stated fails on \<open>"1.2.3"\<close>: the version returned does not wrap the
  input.\<close>

theorem parse_without_build_counterexample:
  "dotted_version ''1.2.3'' \<and>
   parse (JStr ''1.2.3'') \<noteq> Inr \<lparr>version = \<lparr>ver = ''1.2.3''\<rparr>, build = JNum (Finite 0)\<rparr>"
proof -
  have "parse (JStr ''1.2.3'') = Inr \<lparr>version = \<lparr>ver = []\<rparr>, build = JNum (Finite 0)\<rparr>"
    by code_simp
  then show ?thesis using dotted_version_example by simp
qed

text \<open>
  C7, as the code has it. \<open>Version.parse("1.2.3 (45)")\<close> returns a pair whose version
  prints as \<open>"1.2.3"\<close> and whose build is the captured text \<open>"45"\<close>, a string; for every
  input that is not a string and for every string that does not match the pattern it
  returns a version that prints as the empty string and the build 0, a number.
\<close>

theorem parse_results:
  "(\<exists>r. parse (JStr ''1.2.3 (45)'') = Inr r \<and>
        Version_toString (version r) = ''1.2.3'' \<and> build r = JStr ''45'') \<and>
   (\<forall>v. \<not> isString v \<longrightarrow>
        (\<exists>r. parse v = Inr r \<and> Version_toString (version r) = [] \<and> build r = JNum (Finite 0))) \<and>
   (\<forall>s. versionPattern s = None \<longrightarrow>
        (\<exists>r. parse (JStr s) = Inr r \<and> Version_toString (version r) = [] \<and>
             build r = JNum (Finite 0)))"
  by (simp add: parse_with_build parse_non_string parse_no_match Version_toString_def)

theorem parse_results_witness:
  "\<not> isString (JNum (Finite 3)) \<and> versionPattern ''not a version'' = None \<and>
   (\<exists>r. parse (JNum (Finite 3)) = Inr r \<and> Version_toString (version r) = [] \<and>
        build r = JNum (Finite 0)) \<and>
   (\<exists>r. parse (JStr ''not a version'') = Inr r \<and> Version_toString (version r) = [] \<and>
        build r = JNum (Finite 0))"
proof -
  have a: "\<not> isString (JNum (Finite 3))" by simp
  have b: "versionPattern ''not a version'' = None" by code_simp
  from parse_results a b show ?thesis by blast
qed

text \<open>C7 as it is stated fails on \<open>"1.2.3 (45)"\<close>: the build is the string \<open>"45"\<close>, not the
  number 45.\<close>

theorem parse_build_counterexample:
  "parse (JStr ''1.2.3 (45)'') = Inr \<lparr>version = \<lparr>ver = ''1.2.3''\<rparr>, build = JStr ''45''\<rparr> \<and>
   JStr ''45'' \<noteq> JNum (Finite 45)"
  by (simp add: parse_with_build)

section \<open>snake2camel: the conversion of strings and keys\<close>

lemma snake_pattern_Cons2:
  "snake_pattern (u # l # rest) = (if u = CHR ''_'' \<and> is_lower l then [rest] else [])"
  by (simp add: snake_pattern_def re_then_def re_char_def re_class_def)

lemma snake_pattern_short: "snake_pattern [] = []" "snake_pattern [c] = []"
  by (simp_all add: snake_pattern_def re_then_def re_char_def re_class_def)

text \<open>The replacement by the regular expression is the conversion that the specification
  words.\<close>

lemma replace_snake_key_style: "replace_snake s = key_style s"
proof (induction s rule: key_style.induct)
  case 1
  show ?case by (subst replace_snake.simps) (simp add: snake_pattern_short)
next
  case (2 c)
  have "replace_snake [c] = c # replace_snake []"
    by (subst replace_snake.simps) (simp add: snake_pattern_short)
  also have "replace_snake [] = []"
    by (subst replace_snake.simps) (simp add: snake_pattern_short)
  finally show ?case by simp
next
  case (3 u l rest)
  show ?case
  proof (cases "u = CHR ''_'' \<and> is_lower l")
    case True
    then have "replace_snake (u # l # rest) =
        toUpperCase (take 1 (drop 1 (consumed (u # l # rest) rest))) @ replace_snake rest"
      by (subst replace_snake.simps) (simp add: snake_pattern_Cons2)
    with True 3 show ?thesis
      by (simp add: consumed_def toUpperCase_def)
  next
    case False
    then have "replace_snake (u # l # rest) = u # replace_snake (l # rest)"
      by (subst replace_snake.simps) (auto simp: snake_pattern_Cons2)
    with False 3 show ?thesis by auto
  qed
qed

lemma snake2camel_string_key_style: "snake2camel_string s = key_style s"
  by (simp add: snake2camel_string_def replace_snake_key_style)

subsection \<open>The keys and the values of a converted mapping\<close>

lemma inner_snakeObj2camel_keys:
  "inner_snakeObj2camel ps vals = Inr qs \<Longrightarrow>
   fst ` set qs = fst ` set vals \<union> key_style ` fst ` set (data_entries ps)"
proof (induction ps arbitrary: vals)
  case Nil
  then show ?case by (simp add: data_entries_def)
next
  case (Cons p ps)
  obtain key val where p: "p = (key, val)" by (cases p)
  show ?case
  proof (cases "isFunction val")
    case True
    with Cons p show ?thesis by (simp add: data_entries_def)
  next
    case False
    with Cons.prems p obtain v where
      "inner_snakeObj2camel ps (AList.update (snake2camel_string key) v vals) = Inr qs"
      by (auto split: sum.splits)
    from Cons.IH [OF this] False p show ?thesis
      by (auto simp: data_entries_def dom_update snake2camel_string_key_style)
  qed
qed

lemma inner_snakeObj2camel_distinct:
  "inner_snakeObj2camel ps vals = Inr qs \<Longrightarrow> distinct (map fst vals) \<Longrightarrow> distinct (map fst qs)"
proof (induction ps arbitrary: vals)
  case Nil
  then show ?case by simp
next
  case (Cons p ps)
  obtain key val where p: "p = (key, val)" by (cases p)
  show ?case
  proof (cases "isFunction val")
    case True
    with Cons p show ?thesis by simp
  next
    case False
    with Cons.prems p obtain v where
      "inner_snakeObj2camel ps (AList.update (snake2camel_string key) v vals) = Inr qs"
      by (auto split: sum.splits)
    from Cons.IH [OF this] Cons.prems(2) show ?thesis
      by (simp add: distinct_update)
  qed
qed

lemma inner_snakeObj2camel_values:
  "inner_snakeObj2camel ps vals = Inr qs \<Longrightarrow>
   (case last_under ps k of
      None \<Rightarrow> map_of qs k = map_of vals k
    | Some v \<Rightarrow> isPrimitive v \<longrightarrow> map_of qs k = Some v)"
proof (induction ps arbitrary: vals)
  case Nil
  then show ?case by (simp add: data_entries_def last_under_def)
next
  case (Cons p ps)
  obtain key val where p: "p = (key, val)" by (cases p)
  show ?case
  proof (cases "isFunction val")
    case True
    with Cons p show ?thesis by (simp add: data_entries_def last_under_def)
  next
    case False
    with Cons.prems p obtain v where
      v: "(if isPrimitive val then Inr val
           else case val of JArr xs \<Rightarrow> map_sum id JArr (inner_snakeArr2camel xs)
                | JObj ps \<Rightarrow> map_sum id JObj (inner_snakeObj2camel ps [])
                | _ \<Rightarrow> Inr (JObj [])) = Inr v"
      and rest: "inner_snakeObj2camel ps (AList.update (snake2camel_string key) v vals) = Inr qs"
      by (auto split: sum.splits)
    from v have prim: "isPrimitive val \<Longrightarrow> v = val" by simp
    have lu: "last_under (p # ps) k =
        (case last_under ps k of Some w \<Rightarrow> Some w
         | None \<Rightarrow> if key_style key = k then Some val else None)"
      using False p
      by (auto simp: last_under_def data_entries_def map_add_def split: option.splits)
    from Cons.IH [OF rest] prim show ?thesis
      by (auto simp: lu update_conv' snake2camel_string_key_style split: option.splits)
  qed
qed

subsection \<open>When the conversion returns\<close>

lemma true_free_JArr: "true_free (JArr xs) = (JBool True \<notin> set xs \<and> (\<forall>x\<in>set xs. true_free x))"
  by (simp add: list_all_iff)

lemma true_free_JObj: "true_free (JObj ps) = (\<forall>p\<in>set ps. true_free (snd p))"
  by (auto simp: list_all_iff)

lemma inner_snake2camel_returns:
  "isPrimitive v \<Longrightarrow> v \<noteq> JBool True \<Longrightarrow> \<exists>y. inner_snake2camel v = Inr y"
  by (cases v) (auto simp: isPrimitive_def)

lemma inner_returns:
  "true_free (JArr xs) \<Longrightarrow> \<exists>ys. inner_snakeArr2camel xs = Inr ys \<and> length ys = length xs"
  "true_free (JObj ps) \<Longrightarrow> \<exists>qs. inner_snakeObj2camel ps vals = Inr qs"
proof (induction xs and ps vals rule: inner_snakeArr2camel_inner_snakeObj2camel.induct)
  case 1
  show ?case by simp
next
  case (2 obj rest)
  from "2.prems" have obj: "obj \<noteq> JBool True" "true_free obj" and rest: "true_free (JArr rest)"
    by (auto simp: true_free_JArr)
  have "\<exists>y. (if isPrimitive obj then inner_snake2camel obj
            else case obj of
                   JArr xs \<Rightarrow> map_sum id JArr (inner_snakeArr2camel xs)
                 | JObj ps \<Rightarrow> map_sum id JObj (inner_snakeObj2camel ps [])
                 | _ \<Rightarrow> Inr (JObj [])) = Inr y"
  proof (cases "isPrimitive obj")
    case True
    with obj show ?thesis by (simp add: inner_snake2camel_returns)
  next
    case False
    with obj "2.IH"(1,2) show ?thesis
      by (cases obj) (auto simp: isPrimitive_def)
  qed
  then obtain y where y: "(if isPrimitive obj then inner_snake2camel obj
            else case obj of
                   JArr xs \<Rightarrow> map_sum id JArr (inner_snakeArr2camel xs)
                 | JObj ps \<Rightarrow> map_sum id JObj (inner_snakeObj2camel ps [])
                 | _ \<Rightarrow> Inr (JObj [])) = Inr y" ..
  from "2.IH"(3) [OF y rest] obtain ys where
    "inner_snakeArr2camel rest = Inr ys" "length ys = length rest"
    by blast
  with y show ?case by simp
next
  case (3 vals)
  show ?case by simp
next
  case (4 key val rest vals)
  from "4.prems" have val: "true_free val" and rest: "true_free (JObj rest)"
    by (auto simp: true_free_JObj)
  show ?case
  proof (cases "isFunction val")
    case True
    with "4.IH"(1) rest show ?thesis by simp
  next
    case False
    have "\<exists>v. (if isPrimitive val then Inr val
                 else case val of
                        JArr xs \<Rightarrow> map_sum id JArr (inner_snakeArr2camel xs)
                      | JObj ps \<Rightarrow> map_sum id JObj (inner_snakeObj2camel ps [])
                      | _ \<Rightarrow> Inr (JObj [])) = Inr v"
    proof (cases "isPrimitive val")
      case True
      then show ?thesis by simp
    next
      case np: False
      with val False "4.IH"(2,3) show ?thesis
        by (cases val) (auto simp: isPrimitive_def)
    qed
    then obtain v where v: "(if isPrimitive val then Inr val
                 else case val of
                        JArr xs \<Rightarrow> map_sum id JArr (inner_snakeArr2camel xs)
                      | JObj ps \<Rightarrow> map_sum id JObj (inner_snakeObj2camel ps [])
                      | _ \<Rightarrow> Inr (JObj [])) = Inr v" ..
    from "4.IH"(4) [OF False v rest] obtain qs where
      "inner_snakeObj2camel rest (AList.update (snake2camel_string key) v vals) = Inr qs" ..
    with False v show ?thesis by simp
  qed
qed

lemma inner_snake2camel_not_true:
  "inner_snake2camel v = Inr y \<Longrightarrow> v \<noteq> JBool True"
  by (cases v) (auto split: if_splits)

lemma inner_returns_only:
  "inner_snakeArr2camel xs = Inr ys \<Longrightarrow> true_free (JArr xs)"
  "inner_snakeObj2camel ps vals = Inr qs \<Longrightarrow> true_free (JObj ps)"
proof (induction xs and ps vals arbitrary: ys and qs
    rule: inner_snakeArr2camel_inner_snakeObj2camel.induct)
  case 1
  show ?case by simp
next
  case (2 obj rest)
  from "2.prems" obtain y ys' where
    y: "(if isPrimitive obj then inner_snake2camel obj
         else case obj of
                JArr xs \<Rightarrow> map_sum id JArr (inner_snakeArr2camel xs)
              | JObj ps \<Rightarrow> map_sum id JObj (inner_snakeObj2camel ps [])
              | _ \<Rightarrow> Inr (JObj [])) = Inr y"
    and rest: "inner_snakeArr2camel rest = Inr ys'"
    by (auto split: sum.splits simp: map_sum_def)
  have "obj \<noteq> JBool True \<and> true_free obj"
  proof (cases "isPrimitive obj")
    case True
    with y have "obj \<noteq> JBool True" by (auto dest: inner_snake2camel_not_true)
    moreover from True have "true_free obj" by (cases obj) (auto simp: isPrimitive_def)
    ultimately show ?thesis by simp
  next
    case False
    show ?thesis
    proof (cases obj)
      case (JArr xs)
      with False y obtain zs where "inner_snakeArr2camel xs = Inr zs"
        by (auto split: sum.splits simp: map_sum_def)
      with "2.IH"(1) [OF False JArr] JArr show ?thesis by simp
    next
      case (JObj ps)
      with False y obtain zs where "inner_snakeObj2camel ps [] = Inr zs"
        by (auto split: sum.splits simp: map_sum_def)
      with "2.IH"(2) [OF False JObj] JObj show ?thesis by simp
    qed (use False in \<open>auto simp: isPrimitive_def\<close>)
  qed
  moreover from "2.IH"(3) [OF y rest] have "true_free (JArr rest)" .
  ultimately show ?case by (auto simp: list_all_iff)
next
  case (3 vals)
  show ?case by simp
next
  case (4 key val rest vals)
  show ?case
  proof (cases "isFunction val")
    case True
    with "4.prems" have "inner_snakeObj2camel rest vals = Inr qs" by simp
    from "4.IH"(1) [OF True this] True show ?thesis
      by (cases val) (auto simp: list_all_iff)
  next
    case False
    with "4.prems" obtain v where
      v: "(if isPrimitive val then Inr val
           else case val of
                  JArr xs \<Rightarrow> map_sum id JArr (inner_snakeArr2camel xs)
                | JObj ps \<Rightarrow> map_sum id JObj (inner_snakeObj2camel ps [])
                | _ \<Rightarrow> Inr (JObj [])) = Inr v"
      and rest: "inner_snakeObj2camel rest (AList.update (snake2camel_string key) v vals) = Inr qs"
      by (auto split: sum.splits)
    have "true_free val"
    proof (cases "isPrimitive val")
      case True
      then show ?thesis by (cases val) (auto simp: isPrimitive_def)
    next
      case np: False
      show ?thesis
      proof (cases val)
        case (JArr xs)
        with np v obtain zs where "inner_snakeArr2camel xs = Inr zs"
          by (auto split: sum.splits simp: map_sum_def)
        with "4.IH"(2) [OF False np JArr] JArr show ?thesis by simp
      next
        case (JObj ps)
        with np v obtain zs where "inner_snakeObj2camel ps [] = Inr zs"
          by (auto split: sum.splits simp: map_sum_def)
        with "4.IH"(3) [OF False np JObj] JObj show ?thesis by simp
      qed (use np in \<open>auto simp: isPrimitive_def\<close>)
    qed
    moreover from "4.IH"(4) [OF False v rest] have "true_free (JObj rest)" .
    ultimately show ?thesis by (auto simp: list_all_iff)
  qed
qed

lemma snake2camel_JObj:
  "snake2camel (JObj ps) = map_sum id JObj (inner_snakeObj2camel ps [])"
  by (simp add: snake2camel_def)

lemma snake2camel_JArr:
  "snake2camel (JArr xs) = map_sum id JArr (inner_snakeArr2camel xs)"
  by (simp add: snake2camel_def)

lemma last_under_distinct:
  assumes "distinct (map (\<lambda>p. key_style (fst p)) (data_entries ps))"
    and "(k, v) \<in> set (data_entries ps)"
  shows "last_under ps (key_style k) = Some v"
proof -
  let ?xs = "map (\<lambda>p. (key_style (fst p), snd p)) (data_entries ps)"
  have eq: "map fst ?xs = map (\<lambda>p. key_style (fst p)) (data_entries ps)"
    by (simp add: comp_def)
  have "distinct (map fst ?xs)" unfolding eq by (rule assms(1))
  then have "distinct (map fst (rev ?xs))" by (simp only: rev_map [symmetric] distinct_rev)
  moreover from assms(2) have "(key_style k, v) \<in> set (rev ?xs)" by force
  ultimately show ?thesis unfolding last_under_def by (simp only: map_of_eq_Some_iff)
qed

subsection \<open>The values of a converted mapping and the elements of a converted sequence\<close>

lemma plain_JArr: "plain (JArr xs) = (JFun \<notin> set xs \<and> (\<forall>x\<in>set xs. plain x))"
  by (simp add: list_all_iff)

lemma plain_JObj:
  "plain (JObj ps) =
     ((\<forall>p\<in>set ps. \<not> (fst p = ''length'' \<and> isNumber (snd p))) \<and> (\<forall>p\<in>set ps. plain (snd p)))"
  by (auto simp: list_all_iff)

text \<open>What the loops do with a value that is not a primitive is what \<open>snake2camel\<close> does
  with it.\<close>

lemma nested_snake2camel:
  "\<not> isPrimitive v \<Longrightarrow>
   (case v of
      JArr xs \<Rightarrow> map_sum id JArr (inner_snakeArr2camel xs)
    | JObj ps \<Rightarrow> map_sum id JObj (inner_snakeObj2camel ps [])
    | _ \<Rightarrow> Inr (JObj [])) = snake2camel v"
  by (cases v) (simp_all add: isPrimitive_def snake2camel_def)

lemma inner_snakeObj2camel_nested:
  "inner_snakeObj2camel ps vals = Inr qs \<Longrightarrow>
   (case last_under ps k of
      None \<Rightarrow> map_of qs k = map_of vals k
    | Some v \<Rightarrow> \<exists>w. map_of qs k = Some w \<and>
                 (if isPrimitive v then w = v else snake2camel v = Inr w))"
proof (induction ps arbitrary: vals)
  case Nil
  then show ?case by (simp add: data_entries_def last_under_def)
next
  case (Cons p ps)
  obtain key val where p: "p = (key, val)" by (cases p)
  show ?case
  proof (cases "isFunction val")
    case True
    with Cons p show ?thesis by (simp add: data_entries_def last_under_def)
  next
    case False
    with Cons.prems p obtain v where
      v: "(if isPrimitive val then Inr val
           else case val of JArr xs \<Rightarrow> map_sum id JArr (inner_snakeArr2camel xs)
                | JObj ps \<Rightarrow> map_sum id JObj (inner_snakeObj2camel ps [])
                | _ \<Rightarrow> Inr (JObj [])) = Inr v"
      and rest: "inner_snakeObj2camel ps (AList.update (snake2camel_string key) v vals) = Inr qs"
      by (auto split: sum.splits)
    from v have conv: "if isPrimitive val then v = val else snake2camel val = Inr v"
      by (cases "isPrimitive val") (simp_all add: nested_snake2camel)
    have lu: "last_under (p # ps) k =
        (case last_under ps k of Some w \<Rightarrow> Some w
         | None \<Rightarrow> if key_style key = k then Some val else None)"
      using False p
      by (auto simp: last_under_def data_entries_def map_add_def split: option.splits)
    show ?thesis
    proof (cases "last_under ps k")
      case (Some u)
      with Cons.IH [OF rest] lu show ?thesis by simp
    next
      case None
      with Cons.IH [OF rest]
      have m: "map_of qs k = map_of (AList.update (snake2camel_string key) v vals) k" by simp
      show ?thesis
      proof (cases "key_style key = k")
        case True
        with m have "map_of qs k = Some v"
          by (simp add: update_conv' snake2camel_string_key_style)
        with conv None True lu show ?thesis by (cases "isPrimitive val") simp_all
      next
        case ne: False
        with m have "map_of qs k = map_of vals k"
          by (simp add: update_conv' snake2camel_string_key_style)
        with None ne lu show ?thesis by simp
      qed
    qed
  qed
qed

lemma inner_snakeArr2camel_elements:
  "inner_snakeArr2camel xs = Inr ys \<Longrightarrow>
   list_all2 (\<lambda>x y. if isPrimitive x then inner_snake2camel x = Inr y
                     else snake2camel x = Inr y) xs ys"
proof (induction xs arbitrary: ys)
  case Nil
  then show ?case by simp
next
  case (Cons obj rest)
  from Cons.prems obtain y ys' where
    y: "(if isPrimitive obj then inner_snake2camel obj
         else case obj of
                JArr xs \<Rightarrow> map_sum id JArr (inner_snakeArr2camel xs)
              | JObj ps \<Rightarrow> map_sum id JObj (inner_snakeObj2camel ps [])
              | _ \<Rightarrow> Inr (JObj [])) = Inr y"
    and rest: "inner_snakeArr2camel rest = Inr ys'" and ys: "ys = y # ys'"
    by (auto split: sum.splits simp: map_sum_def)
  from y have "if isPrimitive obj then inner_snake2camel obj = Inr y else snake2camel obj = Inr y"
    by (cases "isPrimitive obj") (simp_all add: nested_snake2camel)
  with Cons.IH [OF rest] ys show ?case by simp
qed

text \<open>
  C3, as the code has it. For every plain mapping input in which no sequence has \<open>true\<close>
  among its elements, \<open>snake2camel\<close> returns a mapping. Its keys are exactly the key-style
  conversions of the keys of the entries whose value is not callable, each once: an entry
  with a callable value leaves nothing behind. Under a key stands the value of the last
  such entry that converts to this key, as it is when it is a primitive. So when no two
  of these entries convert to the same key, every primitive value is kept as it is under
  its converted key.
\<close>

theorem snake2camel_mapping:
  assumes "plain (JObj ps)" and "true_free (JObj ps)"
  shows "\<exists>qs. snake2camel (JObj ps) = Inr (JObj qs) \<and>
           fst ` set qs = key_style ` fst ` set (data_entries ps) \<and>
           distinct (map fst qs) \<and>
           (\<forall>k v. last_under ps k = Some v \<and> isPrimitive v \<longrightarrow> map_of qs k = Some v) \<and>
           (distinct (map (\<lambda>p. key_style (fst p)) (data_entries ps)) \<longrightarrow>
              (\<forall>p\<in>set (data_entries ps). isPrimitive (snd p) \<longrightarrow>
                 map_of qs (key_style (fst p)) = Some (snd p)))"
proof -
  from inner_returns(2) [OF assms(2), of "[]"] obtain qs where
    qs: "inner_snakeObj2camel ps [] = Inr qs" ..
  then have ret: "snake2camel (JObj ps) = Inr (JObj qs)" by (simp add: snake2camel_JObj)
  from inner_snakeObj2camel_keys [OF qs]
  have keys: "fst ` set qs = key_style ` fst ` set (data_entries ps)" by simp
  from inner_snakeObj2camel_distinct [OF qs] have dist: "distinct (map fst qs)" by simp
  have last: "map_of qs k = Some v" if "last_under ps k = Some v" "isPrimitive v" for k v
    using inner_snakeObj2camel_values [OF qs, of k] that by simp
  have all: "map_of qs (key_style (fst p)) = Some (snd p)"
    if "distinct (map (\<lambda>p. key_style (fst p)) (data_entries ps))"
      "p \<in> set (data_entries ps)" "isPrimitive (snd p)" for p
    using last_under_distinct [OF that(1), of "fst p" "snd p"] that(2,3) last by simp
  from ret keys dist last all show ?thesis by blast
qed

theorem snake2camel_mapping_witness:
  "plain (JObj [(''key_my'', JFun), (''my_key_name2'', JNum (Finite 234)),
                (''my_key_name3'', JStr ''asdf'')]) \<and>
   true_free (JObj [(''key_my'', JFun), (''my_key_name2'', JNum (Finite 234)),
                   (''my_key_name3'', JStr ''asdf'')]) \<and>
   (\<exists>qs. snake2camel (JObj [(''key_my'', JFun), (''my_key_name2'', JNum (Finite 234)),
                            (''my_key_name3'', JStr ''asdf'')]) = Inr (JObj qs) \<and>
         fst ` set qs = {''myKeyName2'', ''myKeyName3''} \<and>
         map_of qs ''myKeyName2'' = Some (JNum (Finite 234)) \<and>
         map_of qs ''myKeyName3'' = Some (JStr ''asdf''))"
proof -
  let ?ps = "[(''key_my'', JFun), (''my_key_name2'', JNum (Finite 234)),
              (''my_key_name3'', JStr ''asdf'')]"
  have pl: "plain (JObj ?ps)" by simp
  have tf: "true_free (JObj ?ps)" by simp
  have ks: "key_style ` fst ` set (data_entries ?ps) = {''myKeyName2'', ''myKeyName3''}"
    by code_simp
  have l2: "last_under ?ps ''myKeyName2'' = Some (JNum (Finite 234))"
    and l3: "last_under ?ps ''myKeyName3'' = Some (JStr ''asdf'')"
    by code_simp+
  have prim: "isPrimitive (JNum (Finite 234))" "isPrimitive (JStr ''asdf'')"
    by (simp_all add: isPrimitive_def)
  from snake2camel_mapping [OF pl tf] obtain qs where
    ret: "snake2camel (JObj ?ps) = Inr (JObj qs)"
    and keys: "fst ` set qs = key_style ` fst ` set (data_entries ?ps)"
    and last: "\<forall>k v. last_under ?ps k = Some v \<and> isPrimitive v \<longrightarrow> map_of qs k = Some v"
    by blast
  from keys have keys': "fst ` set qs = {''myKeyName2'', ''myKeyName3''}"
    by (simp only: ks)
  have m2: "map_of qs ''myKeyName2'' = Some (JNum (Finite 234))"
    by (rule last [rule_format, OF conjI [OF l2 prim(1)]])
  have m3: "map_of qs ''myKeyName3'' = Some (JStr ''asdf'')"
    by (rule last [rule_format, OF conjI [OF l3 prim(2)]])
  show ?thesis
  proof (intro conjI exI)
    show "plain (JObj ?ps)" by (rule pl)
    show "true_free (JObj ?ps)" by (rule tf)
    show "snake2camel (JObj ?ps) = Inr (JObj qs)" by (rule ret)
    show "fst ` set qs = {''myKeyName2'', ''myKeyName3''}" by (rule keys')
    show "map_of qs ''myKeyName2'' = Some (JNum (Finite 234))" by (rule m2)
    show "map_of qs ''myKeyName3'' = Some (JStr ''asdf'')" by (rule m3)
  qed
qed

text \<open>C3 as it is stated fails when two keys convert to the same key: the later entry
  overwrites the earlier one, whose primitive value is not kept.\<close>

theorem snake2camel_key_collision:
  "snake2camel (JObj [(''a_b'', JNum (Finite 1)), (''aB'', JNum (Finite 2))]) =
     Inr (JObj [(''aB'', JNum (Finite 2))])"
  by code_simp

text \<open>
  C2. A string handed to \<open>snake2camel\<close>, and any string handed to the conversion as the
  key of a mapping is, comes back with the key-style conversion of the specification
  applied: every underscore right before a lower-case ASCII letter is deleted and the
  letter put in upper case, every other character stays. A number handed to the
  conversion comes back as the number it is. During the recursion every key meets this
  conversion: for a plain mapping in which no sequence has \<open>true\<close> among its elements the
  keys of the result are exactly the conversions of the keys of the entries that are data,
  and under a key stands the value of the last of these entries that converts to it, as
  it is when it is a primitive, and else what \<open>snake2camel\<close> itself returns on this value;
  for such a sequence every element of the result is what the conversion returns on the
  element when that is a primitive, and else what \<open>snake2camel\<close> itself returns on it.
\<close>

theorem key_style_conversion:
  "snake2camel (JStr s) = Inr (JStr (key_style s)) \<and>
   inner_snake2camel (JStr s) = Inr (JStr (key_style s)) \<and>
   inner_snake2camel (JNum n) = Inr (JNum n) \<and>
   snake2camel (JArr [JNum n]) = Inr (JArr [JNum n]) \<and>
   (\<forall>ps. plain (JObj ps) \<and> true_free (JObj ps) \<longrightarrow>
      (\<exists>qs. snake2camel (JObj ps) = Inr (JObj qs) \<and>
            fst ` set qs = key_style ` fst ` set (data_entries ps) \<and>
            (\<forall>k v. last_under ps k = Some v \<longrightarrow>
               (\<exists>w. map_of qs k = Some w \<and>
                    (if isPrimitive v then w = v else snake2camel v = Inr w))))) \<and>
   (\<forall>xs. plain (JArr xs) \<and> true_free (JArr xs) \<longrightarrow>
      (\<exists>ys. snake2camel (JArr xs) = Inr (JArr ys) \<and>
            list_all2 (\<lambda>x y. if isPrimitive x then inner_snake2camel x = Inr y
                              else snake2camel x = Inr y) xs ys))"
proof (intro conjI allI impI)
  show "snake2camel (JStr s) = Inr (JStr (key_style s))"
    by (cases "s = []") (simp_all add: snake2camel_def snake2camel_string_key_style)
  show "inner_snake2camel (JStr s) = Inr (JStr (key_style s))"
    by (simp add: snake2camel_string_key_style)
  show "inner_snake2camel (JNum n) = Inr (JNum n)" by simp
  show "snake2camel (JArr [JNum n]) = Inr (JArr [JNum n])"
    by (simp add: snake2camel_def isPrimitive_def)
next
  fix ps assume "plain (JObj ps) \<and> true_free (JObj ps)"
  then have tf: "true_free (JObj ps)" ..
  from inner_returns(2) [OF tf, of "[]"] obtain qs where
    qs: "inner_snakeObj2camel ps [] = Inr qs" ..
  then have ret: "snake2camel (JObj ps) = Inr (JObj qs)" by (simp add: snake2camel_JObj)
  from inner_snakeObj2camel_keys [OF qs]
  have keys: "fst ` set qs = key_style ` fst ` set (data_entries ps)" by simp
  have vals: "\<exists>w. map_of qs k = Some w \<and> (if isPrimitive v then w = v else snake2camel v = Inr w)"
    if "last_under ps k = Some v" for k v
    using inner_snakeObj2camel_nested [OF qs, of k] that by simp
  from ret keys vals
  show "\<exists>qs. snake2camel (JObj ps) = Inr (JObj qs) \<and>
            fst ` set qs = key_style ` fst ` set (data_entries ps) \<and>
            (\<forall>k v. last_under ps k = Some v \<longrightarrow>
               (\<exists>w. map_of qs k = Some w \<and>
                    (if isPrimitive v then w = v else snake2camel v = Inr w)))"
    by blast
next
  fix xs assume "plain (JArr xs) \<and> true_free (JArr xs)"
  then have tf: "true_free (JArr xs)" ..
  from inner_returns(1) [OF tf] obtain ys where ys: "inner_snakeArr2camel xs = Inr ys"
    by blast
  then have ret: "snake2camel (JArr xs) = Inr (JArr ys)" by (simp add: snake2camel_JArr)
  with inner_snakeArr2camel_elements [OF ys]
  show "\<exists>ys. snake2camel (JArr xs) = Inr (JArr ys) \<and>
            list_all2 (\<lambda>x y. if isPrimitive x then inner_snake2camel x = Inr y
                              else snake2camel x = Inr y) xs ys"
    by blast
qed

theorem key_style_conversion_witness:
  "snake2camel (JStr ''my_key_name'') = Inr (JStr ''myKeyName'') \<and>
   inner_snake2camel (JNum (Finite 234)) = Inr (JNum (Finite 234)) \<and>
   plain (JObj [(''this_is_my_key'', JArr [JObj [(''xyz_a'', JNum (Finite 2))]])]) \<and>
   true_free (JObj [(''this_is_my_key'', JArr [JObj [(''xyz_a'', JNum (Finite 2))]])]) \<and>
   (\<exists>qs. snake2camel (JObj [(''this_is_my_key'', JArr [JObj [(''xyz_a'', JNum (Finite 2))]])]) =
           Inr (JObj qs) \<and>
         fst ` set qs = {''thisIsMyKey''} \<and>
         map_of qs ''thisIsMyKey'' = Some (JArr [JObj [(''xyzA'', JNum (Finite 2))]])) \<and>
   plain (JArr [JStr ''a_b'', JObj [(''xyz_a'', JNum (Finite 2))]]) \<and>
   true_free (JArr [JStr ''a_b'', JObj [(''xyz_a'', JNum (Finite 2))]]) \<and>
   snake2camel (JArr [JStr ''a_b'', JObj [(''xyz_a'', JNum (Finite 2))]]) =
     Inr (JArr [JStr ''aB'', JObj [(''xyzA'', JNum (Finite 2))]])"
proof -
  let ?arr = "JArr [JObj [(''xyz_a'', JNum (Finite 2))]]"
  let ?ps = "[(''this_is_my_key'', ?arr)]"
  let ?xs = "[JStr ''a_b'', JObj [(''xyz_a'', JNum (Finite 2))]]"
  note inst = key_style_conversion [of "''my_key_name''" "Finite 234"]
  have k: "key_style ''my_key_name'' = ''myKeyName''" by code_simp
  from inst k have c1: "snake2camel (JStr ''my_key_name'') = Inr (JStr ''myKeyName'')"
    by simp
  have c2: "inner_snake2camel (JNum (Finite 234)) = Inr (JNum (Finite 234))" by simp
  have pl: "plain (JObj ?ps)" and tf: "true_free (JObj ?ps)" by simp_all
  have plx: "plain (JArr ?xs)" and tfx: "true_free (JArr ?xs)" by simp_all
  note obj = inst [THEN conjunct2, THEN conjunct2, THEN conjunct2, THEN conjunct2,
    THEN conjunct1, rule_format, OF conjI [OF pl tf]]
  from obj obtain qs where
    ret: "snake2camel (JObj ?ps) = Inr (JObj qs)"
    and keys: "fst ` set qs = key_style ` fst ` set (data_entries ?ps)"
    and vals: "\<forall>k v. last_under ?ps k = Some v \<longrightarrow>
               (\<exists>w. map_of qs k = Some w \<and>
                    (if isPrimitive v then w = v else snake2camel v = Inr w))"
    by blast
  have ks: "key_style ` fst ` set (data_entries ?ps) = {''thisIsMyKey''}" by code_simp
  have lu: "last_under ?ps ''thisIsMyKey'' = Some ?arr" by code_simp
  have np: "\<not> isPrimitive ?arr" by (simp add: isPrimitive_def)
  have ev: "snake2camel ?arr = Inr (JArr [JObj [(''xyzA'', JNum (Finite 2))]])" by code_simp
  from vals [rule_format, OF lu] np ev
  have m: "map_of qs ''thisIsMyKey'' = Some (JArr [JObj [(''xyzA'', JNum (Finite 2))]])"
    by auto
  from keys have keys': "fst ` set qs = {''thisIsMyKey''}" by (simp only: ks)
  note arr = inst [THEN conjunct2, THEN conjunct2, THEN conjunct2, THEN conjunct2,
    THEN conjunct2, rule_format, OF conjI [OF plx tfx]]
  from arr obtain ys where
    retx: "snake2camel (JArr ?xs) = Inr (JArr ys)"
    and els: "list_all2 (\<lambda>x y. if isPrimitive x then inner_snake2camel x = Inr y
                                   else snake2camel x = Inr y) ?xs ys"
    by blast
  have e1: "inner_snake2camel (JStr ''a_b'') = Inr (JStr ''aB'')"
    and e2: "snake2camel (JObj [(''xyz_a'', JNum (Finite 2))]) =
             Inr (JObj [(''xyzA'', JNum (Finite 2))])"
    by code_simp+
  from els e1 e2 have "ys = [JStr ''aB'', JObj [(''xyzA'', JNum (Finite 2))]]"
    by (auto simp: list_all2_Cons1 isPrimitive_def)
  with retx
  have evx: "snake2camel (JArr ?xs) = Inr (JArr [JStr ''aB'', JObj [(''xyzA'', JNum (Finite 2))]])"
    by simp
  show ?thesis
  proof (intro conjI exI)
    show "snake2camel (JStr ''my_key_name'') = Inr (JStr ''myKeyName'')" by (rule c1)
    show "inner_snake2camel (JNum (Finite 234)) = Inr (JNum (Finite 234))" by (rule c2)
    show "plain (JObj ?ps)" by (rule pl)
    show "true_free (JObj ?ps)" by (rule tf)
    show "snake2camel (JObj ?ps) = Inr (JObj qs)" by (rule ret)
    show "fst ` set qs = {''thisIsMyKey''}" by (rule keys')
    show "map_of qs ''thisIsMyKey'' = Some (JArr [JObj [(''xyzA'', JNum (Finite 2))]])" by (rule m)
    show "plain (JArr ?xs)" by (rule plx)
    show "true_free (JArr ?xs)" by (rule tfx)
    show "snake2camel (JArr ?xs) = Inr (JArr [JStr ''aB'', JObj [(''xyzA'', JNum (Finite 2))]])"
      by (rule evx)
  qed
qed

section \<open>snake2camel: primitives at the root and in sequences\<close>

text \<open>
  C5. \<open>snake2camel\<close> returns every falsy input as it is: 0, false, the empty string,
  null and undefined (and not-a-number).
\<close>

theorem snake2camel_falsy: "\<not> truthy v \<Longrightarrow> snake2camel v = Inr v"
  by (simp add: snake2camel_def)

theorem snake2camel_falsy_witness:
  "snake2camel (JNum (Finite 0)) = Inr (JNum (Finite 0)) \<and>
   snake2camel (JBool False) = Inr (JBool False) \<and>
   snake2camel (JStr '''') = Inr (JStr '''') \<and>
   snake2camel JNull = Inr JNull \<and>
   snake2camel JUndefined = Inr JUndefined"
  using snake2camel_falsy [of "JNum (Finite 0)"] snake2camel_falsy [of "JBool False"]
    snake2camel_falsy [of "JStr ''''"] snake2camel_falsy [of JNull]
    snake2camel_falsy [of JUndefined]
  by simp

text \<open>
  C10. At the root a truthy number and \<open>true\<close> give null. A number that is an element of
  a sequence, and a number or \<open>true\<close> as the value of a mapping (under a key other than
  \<open>length\<close>), come back as they are; \<open>true\<close> as an element of a sequence does not: the
  call raises a TypeError.
\<close>

theorem snake2camel_root_primitive:
  "(truthy (JNum n) \<longrightarrow> snake2camel (JNum n) = Inr JNull) \<and>
   snake2camel (JBool True) = Inr JNull \<and>
   snake2camel (JArr [JNum n]) = Inr (JArr [JNum n]) \<and>
   (k \<noteq> ''length'' \<longrightarrow>
      snake2camel (JObj [(k, JNum n)]) = Inr (JObj [(key_style k, JNum n)]) \<and>
      snake2camel (JObj [(k, JBool True)]) = Inr (JObj [(key_style k, JBool True)])) \<and>
   snake2camel (JArr [JBool True]) = Inl TypeError"
  by (simp add: snake2camel_def isPrimitive_def snake2camel_string_key_style)

theorem snake2camel_root_primitive_witness:
  "truthy (JNum (Finite 5)) \<and> snake2camel (JNum (Finite 5)) = Inr JNull \<and>
   snake2camel (JArr [JNum (Finite 5)]) = Inr (JArr [JNum (Finite 5)]) \<and>
   ''my_key'' \<noteq> ''length'' \<and>
   snake2camel (JObj [(''my_key'', JNum (Finite 5))]) = Inr (JObj [(''myKey'', JNum (Finite 5))]) \<and>
   snake2camel (JObj [(''my_key'', JBool True)]) = Inr (JObj [(''myKey'', JBool True)]) \<and>
   snake2camel (JArr [JBool True]) = Inl TypeError"
proof -
  have k: "key_style ''my_key'' = ''myKey''" by code_simp
  from snake2camel_root_primitive [of "Finite 5" "''my_key''"] show ?thesis
    unfolding k by simp
qed

text \<open>On a plain value the conversion raises exactly when a sequence inside has \<open>true\<close>
  among its elements; on every other plain sequence it returns a sequence of the same
  length, and on every other plain mapping a mapping.\<close>

lemma snake2camel_raises_iff:
  assumes "plain v"
  shows "(\<exists>e. snake2camel v = Inl e) \<longleftrightarrow> \<not> true_free v"
proof (cases v)
  case (JArr xs)
  show ?thesis
  proof
    assume "\<exists>e. snake2camel v = Inl e"
    then have "\<not> (\<exists>ys. inner_snakeArr2camel xs = Inr ys)"
      unfolding JArr snake2camel_JArr by (auto simp: map_sum_def)
    with inner_returns(1) [of xs] JArr show "\<not> true_free v" by blast
  next
    assume "\<not> true_free v"
    with inner_returns_only(1) [of xs] JArr have "\<not> (\<exists>ys. inner_snakeArr2camel xs = Inr ys)"
      by blast
    then show "\<exists>e. snake2camel v = Inl e"
      unfolding JArr snake2camel_JArr by (cases "inner_snakeArr2camel xs") auto
  qed
next
  case (JObj ps)
  show ?thesis
  proof
    assume "\<exists>e. snake2camel v = Inl e"
    then have "\<not> (\<exists>qs. inner_snakeObj2camel ps [] = Inr qs)"
      unfolding JObj snake2camel_JObj by (auto simp: map_sum_def)
    with inner_returns(2) [of ps "[]"] JObj show "\<not> true_free v" by blast
  next
    assume "\<not> true_free v"
    with inner_returns_only(2) [of ps "[]"] JObj
    have "\<not> (\<exists>qs. inner_snakeObj2camel ps [] = Inr qs)"
      by blast
    then show "\<exists>e. snake2camel v = Inl e"
      unfolding JObj snake2camel_JObj by (cases "inner_snakeObj2camel ps []") auto
  qed
qed (auto simp: snake2camel_def)

lemma snake2camel_shape:
  assumes "plain v" and "true_free v"
  shows "(\<forall>xs. v = JArr xs \<longrightarrow> (\<exists>ys. snake2camel v = Inr (JArr ys) \<and> length ys = length xs)) \<and>
         (\<forall>ps. v = JObj ps \<longrightarrow> (\<exists>qs. snake2camel v = Inr (JObj qs)))"
proof (intro conjI allI impI)
  fix xs assume v: "v = JArr xs"
  with assms(2) inner_returns(1) [of xs] obtain ys where
    "inner_snakeArr2camel xs = Inr ys" "length ys = length xs" by blast
  then show "\<exists>ys. snake2camel v = Inr (JArr ys) \<and> length ys = length xs"
    unfolding v snake2camel_JArr by simp
next
  fix ps assume v: "v = JObj ps"
  with assms(2) inner_returns(2) [of ps "[]"] obtain qs where
    "inner_snakeObj2camel ps [] = Inr qs" by blast
  then show "\<exists>qs. snake2camel v = Inr (JObj qs)"
    unfolding v snake2camel_JObj by simp
qed

text \<open>
  C4. A sequence that has \<open>true\<close> among its elements, at the root or inside a mapping, is
  not converted to a sequence: the call raises a TypeError.
\<close>

theorem snake2camel_true_in_sequence:
  "snake2camel (JArr [JBool True]) = Inl TypeError \<and>
   snake2camel (JArr [JStr ''abcd'', JBool True]) = Inl TypeError \<and>
   snake2camel (JObj [(''my_key'', JArr [JBool True])]) = Inl TypeError"
  by (simp add: snake2camel_def isPrimitive_def snake2camel_string_key_style)

section \<open>extractIPv4\<close>

subsection \<open>A match is a dotted quad\<close>

lemma dot_digits_split:
  assumes "r \<in> set (dot_digits s)"
  shows "\<exists>d. digit_group d \<and> s = ''.'' @ d @ r"
proof -
  from assms obtain t where "t \<in> set (re_char (CHR ''.'') s)" "r \<in> set (re_plus is_digit t)"
    by (auto simp: dot_digits_def re_then_iff)
  with re_char_split [of t "CHR ''.''" s] re_plus_split [of r is_digit t]
  show ?thesis by (auto simp: digit_group_def)
qed

lemma ipv4_pattern_split:
  assumes "r \<in> set (ipv4_pattern s)"
  shows "\<exists>a b c d. digit_group a \<and> digit_group b \<and> digit_group c \<and> digit_group d \<and>
           s = a @ ''.'' @ b @ ''.'' @ c @ ''.'' @ d @ r"
proof -
  from assms obtain t1 t2 t3 where
    t1: "t1 \<in> set (re_plus is_digit s)" and t2: "t2 \<in> set (dot_digits t1)"
    and t3: "t3 \<in> set (dot_digits t2)" and r: "r \<in> set (dot_digits t3)"
    by (auto simp: ipv4_pattern_def re_then_iff)
  from re_plus_split [OF t1] obtain a where a: "s = a @ t1" "digit_group a"
    by (auto simp: digit_group_def)
  from dot_digits_split [OF t2] obtain b where b: "digit_group b" "t1 = ''.'' @ b @ t2" by blast
  from dot_digits_split [OF t3] obtain c where c: "digit_group c" "t2 = ''.'' @ c @ t3" by blast
  from dot_digits_split [OF r] obtain d where d: "digit_group d" "t3 = ''.'' @ d @ r" by blast
  from a b c d have "digit_group a \<and> digit_group b \<and> digit_group c \<and> digit_group d \<and>
           s = a @ ''.'' @ b @ ''.'' @ c @ ''.'' @ d @ r" by simp
  then show ?thesis by blast
qed

lemma has_dotted_quad_Cons: "has_dotted_quad cs \<Longrightarrow> has_dotted_quad (c # cs)"
proof -
  assume "has_dotted_quad cs"
  then obtain pre a b k d post where
    "digit_group a \<and> digit_group b \<and> digit_group k \<and> digit_group d \<and>
     cs = pre @ a @ ''.'' @ b @ ''.'' @ k @ ''.'' @ d @ post"
    unfolding has_dotted_quad_def by blast
  then have "digit_group a \<and> digit_group b \<and> digit_group k \<and> digit_group d \<and>
     c # cs = (c # pre) @ a @ ''.'' @ b @ ''.'' @ k @ ''.'' @ d @ post" by simp
  then show ?thesis unfolding has_dotted_quad_def by blast
qed

lemma ipv4_pattern_quad: "r \<in> set (ipv4_pattern s) \<Longrightarrow> has_dotted_quad s"
proof -
  assume "r \<in> set (ipv4_pattern s)"
  from ipv4_pattern_split [OF this] obtain a b c d where
    "digit_group a \<and> digit_group b \<and> digit_group c \<and> digit_group d \<and>
           s = [] @ a @ ''.'' @ b @ ''.'' @ c @ ''.'' @ d @ r" by auto
  then show ?thesis unfolding has_dotted_quad_def by blast
qed

lemma ipv4_search_sound: "ipv4_search s = Some m \<Longrightarrow> has_dotted_quad s"
proof (induction s)
  case Nil
  then show ?case
    by (simp add: ipv4_pattern_def re_then_def re_plus_def)
next
  case (Cons c cs)
  show ?case
  proof (cases "ipv4_pattern (c # cs)")
    case Nil
    with Cons show ?thesis by (simp add: has_dotted_quad_Cons)
  next
    case (Cons r rs)
    then have "r \<in> set (ipv4_pattern (c # cs))" by simp
    then show ?thesis by (rule ipv4_pattern_quad)
  qed
qed

text \<open>
  C9. On a string that is not empty and has no four digit groups separated by dots inside,
  \<open>extractIPv4\<close> raises a TypeError.
\<close>

theorem extractIPv4_raises:
  "s \<noteq> [] \<Longrightarrow> \<not> has_dotted_quad s \<Longrightarrow> extractIPv4 (JStr s) = Inl TypeError"
  using ipv4_search_sound [of s]
  by (cases "ipv4_search s") (auto simp: extractIPv4_def)

lemma digit_group_has_digit: "digit_group d \<Longrightarrow> \<exists>c\<in>set d. is_digit c"
  by (cases d) (auto simp: digit_group_def)

lemma has_dotted_quad_digit: "has_dotted_quad s \<Longrightarrow> \<exists>c\<in>set s. is_digit c"
  unfolding has_dotted_quad_def using digit_group_has_digit by fastforce

theorem extractIPv4_raises_witness:
  "''no address'' \<noteq> [] \<and> \<not> has_dotted_quad ''no address'' \<and>
   extractIPv4 (JStr ''no address'') = Inl TypeError"
proof -
  have h: "\<not> has_dotted_quad ''no address''"
    using has_dotted_quad_digit [of "''no address''"] by (auto simp: is_digit_def)
  with extractIPv4_raises [of "''no address''"] show ?thesis by simp
qed

section \<open>isNumericMap\<close>

lemma isNumericMap_loop_slow: "isNumericMap_loop isNaN False keys counter False = False"
  by (induction keys) simp_all

text \<open>
  C8. Without the fast check \<open>isNumericMap\<close> answers false for every argument, whatever
  its keys are: also for a mapping whose keys are all numeric.
\<close>

theorem isNumericMap_not_fast: "isNumericMap isNaN mp (JBool False) = False"
  by (simp add: isNumericMap_def isNumericMap_loop_slow)

end
